theory Spec2Isabelle
  imports
    Main
    "HOL-Library.Char_ord"
    "HOL-Library.List_Lexorder"
    "HOL-Library.Sublist"
    "HOL-Library.Multiset"
begin

section \<open>Python values used by ci-overview\<close>

text \<open>
  Exceptions of the Python source are values: every \<open>raise\<close>, failed subscript and failed
  unpacking of the modelled functions is a branch returning \<open>Inl\<close>.
  \<open>KeyError\<close> carries the missing key, \<open>ValueError\<close> the message the source gives it; the
  message of a \<open>ValueError\<close> that the interpreter raises itself is not modelled and is left
  empty.
\<close>

datatype error =
    ValueError string
  | KeyError string
  | IndexError
  | ZeroDivisionError

text \<open>
  \<open>str.partition(sep)\<close> for a one-character separator: the text before the first
  occurrence, whether the separator was found (the truth value of the middle component),
  and the text after it. When the separator is absent the head is the whole string and
  the tail is empty.
\<close>

fun str_partition :: "char \<Rightarrow> string \<Rightarrow> string \<times> bool \<times> string" where
  "str_partition sep [] = ([], False, [])"
| "str_partition sep (c # cs) =
     (if c = sep then ([], True, cs)
      else (case str_partition sep cs of (h, found, t) \<Rightarrow> (c # h, found, t)))"

text \<open>\<open>str.startswith(p)\<close>.\<close>

definition startswith :: "string \<Rightarrow> string \<Rightarrow> bool" where
  "startswith s p = (take (length p) s = p)"

text \<open>\<open>sep.join(xs)\<close>.\<close>

fun join :: "string \<Rightarrow> string list \<Rightarrow> string" where
  "join sep [] = []"
| "join sep [x] = x"
| "join sep (x # y # ys) = x @ sep @ join sep (y # ys)"

text \<open>\<open>str(n)\<close> for an integer: decimal digits, with a minus sign for negatives.\<close>

definition digit_char :: "nat \<Rightarrow> char" where
  "digit_char d = ''0123456789'' ! d"

fun str_nat :: "nat \<Rightarrow> string" where
  "str_nat n = (if n < 10 then [digit_char n] else str_nat (n div 10) @ [digit_char (n mod 10)])"

declare str_nat.simps [simp del]

definition str_int :: "int \<Rightarrow> string" where
  "str_int i = (if i < 0 then CHR ''-'' # str_nat (nat (- i)) else str_nat (nat i))"

text \<open>\<open>'{:Nd}'.format(i)\<close>: the decimal text of \<open>i\<close>, right-aligned with spaces to width \<open>N\<close>.\<close>

definition format_d :: "nat \<Rightarrow> int \<Rightarrow> string" where
  "format_d width i = replicate (width - length (str_int i)) CHR '' '' @ str_int i"

text \<open>
  A dictionary with string keys and values (the variables of an \<open>.env\<close> file) is a map;
  \<open>d.update(e)\<close> overwrites \<open>d\<close> with every item of \<open>e\<close>.
\<close>

type_synonym env = "string \<rightharpoonup> string"

definition dict_update :: "('k \<rightharpoonup> 'v) \<Rightarrow> ('k \<rightharpoonup> 'v) \<Rightarrow> ('k \<rightharpoonup> 'v)" where
  "dict_update d e = (\<lambda>k. case e k of Some v \<Rightarrow> Some v | None \<Rightarrow> d k)"

text \<open>\<open>d[k]\<close>: the value, or \<open>KeyError\<close>.\<close>

definition subscript :: "env \<Rightarrow> string \<Rightarrow> error + string" where
  "subscript d k = (case d k of None \<Rightarrow> Inl (KeyError k) | Some v \<Rightarrow> Inr v)"

text \<open>
  \<open>dd[k].append(v)\<close> on a \<open>defaultdict(list)\<close>: a missing key starts from the empty list.
  Reading \<open>dd[k]\<close> of a missing key gives the empty list.
\<close>

definition dd_append :: "('k \<rightharpoonup> 'v list) \<Rightarrow> 'k \<Rightarrow> 'v \<Rightarrow> ('k \<rightharpoonup> 'v list)" where
  "dd_append dd k v = dd(k \<mapsto> (case dd k of None \<Rightarrow> [] | Some vs \<Rightarrow> vs) @ [v])"

definition dd_get :: "('k \<rightharpoonup> 'v list) \<Rightarrow> 'k \<Rightarrow> 'v list" where
  "dd_get dd k = (case dd k of None \<Rightarrow> [] | Some vs \<Rightarrow> vs)"

section \<open>Status records\<close>

text \<open>
  \<open>State\<close> is the literal type of \<open>overview.py\<close>. \<open>Check\<close> is its \<open>TypedDict\<close> with
  \<open>total=False\<close>: the keys \<open>context\<close>, \<open>state\<close> and \<open>createdAt\<close> are those the GraphQL query
  asks for and are read by plain subscripts; the others may be absent (\<open>format_status\<close>
  catches their \<open>KeyError\<close>), so they are optional fields. The key \<open>context\<close> is the field
  \<open>context_name\<close>.
\<close>

datatype State = EXPECTED | ERROR | FAILURE | PENDING | SUCCESS

record Check =
  context_name :: string
  state :: State
  createdAt :: string
  repo :: "string option"
  pr :: "int option"
  commit_sha :: "string option"
  ci_name :: "string option"

section \<open>Table layout (\<open>output_check_table\<close>)\<close>

definition INDENT :: string where
  "INDENT = ''  ''"

definition SEPARATOR :: string where
  "SEPARATOR = ''  ''"

text \<open>
  The expression of \<open>overview.py\<close> lines 148-149,
  \<open>(terminal_width - 2*len(INDENT) + len(SEPARATOR)) // (len('#') + prnum_len + len(SEPARATOR))\<close>.
  Python's \<open>//\<close> on integers is floor division, as \<open>div\<close> on \<open>int\<close> is; the divisor is
  at least 3 and never zero.
\<close>

definition items_per_row :: "int \<Rightarrow> nat \<Rightarrow> int" where
  "items_per_row terminal_width prnum_len =
     (terminal_width - 2 * int (length INDENT) + int (length SEPARATOR)) div
     (int (length ''#'') + int prnum_len + int (length SEPARATOR))"

section \<open>Fetching and classifying statuses (\<open>get_check_statuses\<close>)\<close>

text \<open>
  The shape of the GraphQL response read by \<open>get_check_statuses\<close>: each node of
  \<open>response['repository']['pullRequests']['nodes']\<close> has \<open>number\<close>, \<open>title\<close>, \<open>isDraft\<close> and
  the list \<open>commits.nodes\<close> of commits (the query asks for the last one only); a commit has
  its \<open>oid\<close> and a \<open>status\<close> that is null or holds the list of reported contexts.
\<close>

record Commit =
  oid :: string
  status :: "Check list option"

record PullRequest =
  number :: int
  title :: string
  isDraft :: bool
  commits :: "Commit list"

text \<open>
  The client is the external collaborator: \<open>client.execute\<close> receives the variables
  \<open>(repoOwner, repoName, baseBranch)\<close> and answers with the pull-request nodes.
\<close>

type_synonym request = "string \<times> string \<times> string"
type_synonym client = "request \<Rightarrow> PullRequest list"
type_synonym statuses = "string \<rightharpoonup> Check list"

text \<open>\<open>{c['context']: c for c in commit['status']['contexts']} if commit['status'] else {}\<close>;
  a later context of the same name replaces an earlier one.\<close>

definition contexts_of :: "Commit \<Rightarrow> (string \<rightharpoonup> Check)" where
  "contexts_of commit =
     (case status commit of
        None \<Rightarrow> Map.empty
      | Some cs \<Rightarrow> foldl (\<lambda>m c. m(context_name c \<mapsto> c)) Map.empty cs)"

text \<open>The fallback dictionary of \<open>overview.py\<close>, lines 96-97; \<open>now\<close> is the string
  \<open>NOW.strftime(TIMEFORMAT)\<close>.\<close>

definition fallback :: "string \<Rightarrow> string \<Rightarrow> Check" where
  "fallback now check =
     \<lparr>context_name = check, state = EXPECTED, createdAt = now, repo = None, pr = None, commit_sha = None, ci_name = None\<rparr>"

text \<open>The record appended for one check of one pull request (lines 98-103):
  \<open>contexts.get(check, fallback) | {'repo': ..., 'pr': ..., 'commit_sha': ..., 'ci_name': ...}\<close>.\<close>

definition status_record ::
    "string \<Rightarrow> string \<Rightarrow> PullRequest \<Rightarrow> Commit \<Rightarrow> string \<Rightarrow> string \<Rightarrow> Check" where
  "status_record now repo_arg pull commit check ci =
     (case contexts_of commit check of None \<Rightarrow> fallback now check | Some c \<Rightarrow> c)
       \<lparr>repo := Some repo_arg, pr := Some (number pull),
        commit_sha := Some (oid commit), ci_name := Some ci\<rparr>"

text \<open>The inner loop \<open>for check in checks\<close>; \<open>names_table[check]\<close> raises \<open>KeyError\<close>.\<close>

fun checks_loop ::
    "string \<Rightarrow> string \<Rightarrow> env \<Rightarrow> PullRequest \<Rightarrow> Commit \<Rightarrow> string list \<Rightarrow> statuses
      \<Rightarrow> error + statuses" where
  "checks_loop now repo_arg names_table pull commit [] sts = Inr sts"
| "checks_loop now repo_arg names_table pull commit (check # checks) sts =
     (case names_table check of
        None \<Rightarrow> Inl (KeyError check)
      | Some ci \<Rightarrow>
          checks_loop now repo_arg names_table pull commit checks
            (dd_append sts check (status_record now repo_arg pull commit check ci)))"

text \<open>The test of line 88, \<open>pull['isDraft'] or pull['title'].startswith('[WIP]')\<close>.\<close>

definition skipped :: "PullRequest \<Rightarrow> bool" where
  "skipped pull = (isDraft pull \<or> startswith (title pull) ''[WIP]'')"

text \<open>The outer loop \<open>for pull in ...['nodes']\<close>; \<open>pull['commits']['nodes'][0]\<close> raises
  \<open>IndexError\<close> on a pull request without commits.\<close>

fun pulls_loop ::
    "string \<Rightarrow> string \<Rightarrow> env \<Rightarrow> string list \<Rightarrow> PullRequest list \<Rightarrow> statuses
      \<Rightarrow> error + statuses" where
  "pulls_loop now repo_arg names_table checks [] sts = Inr sts"
| "pulls_loop now repo_arg names_table checks (pull # pulls) sts =
     (if skipped pull then pulls_loop now repo_arg names_table checks pulls sts
      else
        (case commits pull of
           [] \<Rightarrow> Inl IndexError
         | commit # _ \<Rightarrow>
             (case checks_loop now repo_arg names_table pull commit checks sts of
                Inl e \<Rightarrow> Inl e
              | Inr sts' \<Rightarrow> pulls_loop now repo_arg names_table checks pulls sts')))"

text \<open>
  \<open>get_check_statuses\<close> of \<open>overview.py\<close> (lines 76-104), where \<open>TIMEFORMAT\<close> and \<open>NOW\<close> are
  module constants. The result pairs the requests sent to the client, in order, with the
  raised error or the returned dictionary: the fetch is the function's only effect.
  The function of the same name in \<open>pull_requests.py\<close> has the same lines up to the
  request and the loop header; its fallback reads \<open>TIMEFORMAT\<close>, a name that module does not
  define, and it is not the function modelled here.
\<close>

definition get_check_statuses ::
    "string \<Rightarrow> client \<Rightarrow> string \<Rightarrow> string \<Rightarrow> string list \<Rightarrow> env
      \<Rightarrow> request list \<times> (error + statuses)" where
  "get_check_statuses now cl repo_arg branch checks names_table =
     (case str_partition CHR ''/'' repo_arg of
        (owner, is_valid, repo_name) \<Rightarrow>
          if \<not> is_valid then ([], Inl (ValueError ''repository name must contain a slash''))
          else
            ([(owner, repo_name, branch)],
             pulls_loop now repo_arg names_table checks (cl (owner, repo_name, branch))
               Map.empty))"

text \<open>The records of one check for one pull-request number in a returned dictionary.\<close>

definition records_for :: "statuses \<Rightarrow> string \<Rightarrow> int \<Rightarrow> Check list" where
  "records_for sts check n = filter (\<lambda>s. pr s = Some n) (dd_get sts check)"

text \<open>The dictionary a call returned; empty when it raised.\<close>

definition returned :: "error + statuses \<Rightarrow> statuses" where
  "returned res = (case res of Inl e \<Rightarrow> Map.empty | Inr sts \<Rightarrow> sts)"

text \<open>The pull requests that are not skipped, in response order.\<close>

definition shown :: "PullRequest list \<Rightarrow> PullRequest list" where
  "shown pulls = filter (\<lambda>p. \<not> skipped p) pulls"

text \<open>
  The value of the appended expression for a pull request whose first commit node exists,
  with \<open>names_table[check]\<close> read as the table's entry.
\<close>

definition expected_record ::
    "string \<Rightarrow> string \<Rightarrow> env \<Rightarrow> PullRequest \<Rightarrow> string \<Rightarrow> Check" where
  "expected_record now repo_arg names_table pull check =
     (case contexts_of (hd (commits pull)) check of None \<Rightarrow> fallback now check | Some c \<Rightarrow> c)
       \<lparr>repo := Some repo_arg, pr := Some (number pull),
        commit_sha := Some (oid (hd (commits pull))), ci_name := names_table check\<rparr>"

section \<open>Formatting one status (\<open>format_status\<close> of \<open>overview.py\<close>)\<close>

definition ESC :: char where
  "ESC = CHR 0x1B"

text \<open>The string escape \<open>\033\\\<close>: ESC followed by a backslash.\<close>

definition ST :: string where
  "ST = [ESC, CHR 0x5C]"

text \<open>
  \<open>overview.py\<close>, lines 165-175: the log URL, built only for a finished check and only
  when all four keys are present (the \<open>KeyError\<close> of a missing one is caught).
\<close>

definition overview_url :: "Check \<Rightarrow> string option" where
  "overview_url st =
     (if state st \<in> {SUCCESS, FAILURE, ERROR} then
        (case (repo st, pr st, commit_sha st, ci_name st) of
           (Some r, Some n, Some sha, Some ci) \<Rightarrow>
             Some (join ''/'' [''https://ali-ci.cern.ch/alice-build-logs'', r, str_int n, sha,
                               ci, ''pretty.html''])
         | _ \<Rightarrow> None)
      else None)"

text \<open>The colour dictionary of \<open>overview.py\<close>, lines 179-185.\<close>

definition overview_colour :: "State \<Rightarrow> string" where
  "overview_colour s =
     (case s of
        PENDING \<Rightarrow> ''33''
      | EXPECTED \<Rightarrow> ''35''
      | SUCCESS \<Rightarrow> ''32''
      | FAILURE \<Rightarrow> ''31''
      | ERROR \<Rightarrow> ''31;1'')"

text \<open>
  \<open>format_status\<close> of \<open>overview.py\<close>. The parameter \<open>recent_cutoff\<close> is the string
  \<open>(NOW - timedelta(days=recent_days)).strftime(TIMEFORMAT)\<close> of line 187; timestamps are
  compared as strings, character by character.
\<close>

definition overview_format_status :: "Check \<Rightarrow> string \<Rightarrow> string \<Rightarrow> string" where
  "overview_format_status st text recent_cutoff =
     (let url = overview_url st;
          opened = (case url of Some u \<Rightarrow> ESC # '']8;;'' @ u @ ST | None \<Rightarrow> []);
          coloured = opened @ ESC # ''['' @ overview_colour (state st);
          marked = (if createdAt st > recent_cutoff then coloured @ '';7'' else coloured);
          texted = marked @ ''m'' @ text;
          closed = (case url of Some u \<Rightarrow> texted @ ESC # '']8;;'' @ ST | None \<Rightarrow> texted)
      in closed @ ESC # ''[0m'')"

text \<open>\<open>format_table_row\<close> of \<open>overview.py\<close>.\<close>

definition format_table_row :: "(Check \<times> string) list \<Rightarrow> string \<Rightarrow> string" where
  "format_table_row statuses_and_text recent_cutoff =
     INDENT @ INDENT @
     join SEPARATOR (map (\<lambda>(st, text). overview_format_status st text recent_cutoff)
                         statuses_and_text)"

section \<open>Printing one table (\<open>output_check_table\<close> of \<open>overview.py\<close>)\<close>

text \<open>
  \<open>list.sort(key=..., reverse=True)\<close> sorts in place, descending by key, and is stable:
  elements with equal keys keep their order. Insertion from the right, placing an element
  before the first element whose key is not greater, computes that arrangement.
\<close>

fun insort_reverse :: "('a \<Rightarrow> 'k::linorder) \<Rightarrow> 'a \<Rightarrow> 'a list \<Rightarrow> 'a list" where
  "insort_reverse key x [] = [x]"
| "insort_reverse key x (y # ys) =
     (if key y \<le> key x then x # y # ys else y # insort_reverse key x ys)"

definition sort_reverse :: "('a \<Rightarrow> 'k::linorder) \<Rightarrow> 'a list \<Rightarrow> 'a list" where
  "sort_reverse key xs = foldr (insort_reverse key) xs []"

text \<open>The generator \<open>c['pr'] for c in pr_statuses\<close>: a status without \<open>pr\<close> raises.\<close>

fun pr_numbers :: "Check list \<Rightarrow> error + int list" where
  "pr_numbers [] = Inr []"
| "pr_numbers (c # cs) =
     (case pr c of
        None \<Rightarrow> Inl (KeyError ''pr'')
      | Some n \<Rightarrow> (case pr_numbers cs of Inl e \<Rightarrow> Inl e | Inr ns \<Rightarrow> Inr (n # ns)))"

text \<open>
  Line 146, \<open>1 + math.floor(math.log10(max(...)))\<close>: \<open>max\<close> of no number and the logarithm
  of a number that is not positive raise \<open>ValueError\<close>. The logarithm is computed in
  floating point by the C library; \<open>floor_log10\<close> stands for \<open>math.floor(math.log10(m))\<close> at
  a positive integer \<open>m\<close>, a natural number, and is a parameter.
\<close>

definition prnum_len :: "(int \<Rightarrow> nat) \<Rightarrow> int list \<Rightarrow> error + nat" where
  "prnum_len floor_log10 ns =
     (case ns of
        [] \<Rightarrow> Inl (ValueError [])
      | n # rest \<Rightarrow>
          (let m = fold max rest n
           in if m \<le> 0 then Inl (ValueError [])
              else Inr (1 + floor_log10 m)))"

text \<open>\<open>itertools.groupby\<close>: maximal runs of consecutive elements with equal keys.\<close>

function groupby :: "('a \<Rightarrow> 'k) \<Rightarrow> 'a list \<Rightarrow> ('k \<times> 'a list) list" where
  "groupby key [] = []"
| "groupby key (x # xs) =
     (key x, x # takeWhile (\<lambda>y. key y = key x) xs) #
     groupby key (dropWhile (\<lambda>y. key y = key x) xs)"
  by pat_completeness auto
termination
  by (relation "measure (\<lambda>(key, xs). length xs)")
     (auto simp: length_dropWhile_le less_Suc_eq_le)

text \<open>
  The loop of lines 150-155 over the sorted list: rows are the groups of
  \<open>enumerate(pr_statuses)\<close> under \<open>index // items_per_row\<close>, which raises
  \<open>ZeroDivisionError\<close> at the first element when \<open>items_per_row\<close> is zero; each element is
  labelled \<open>'#'\<close> followed by its number right-aligned to \<open>prnum_len\<close>.
\<close>

definition table_rows ::
    "Check list \<Rightarrow> int list \<Rightarrow> nat \<Rightarrow> int \<Rightarrow> string \<Rightarrow> error + string list" where
  "table_rows pr_statuses ns len per_row recent_cutoff =
     (if per_row = 0 \<and> pr_statuses \<noteq> [] then Inl ZeroDivisionError
      else
        Inr (map (\<lambda>(k, row).
                    format_table_row
                      (map (\<lambda>(i, st, n). (st, CHR ''#'' # format_d len n)) row) recent_cutoff)
                 (groupby (\<lambda>(i, st, n). int i div per_row)
                          (enumerate 0 (zip pr_statuses ns)))))"

text \<open>
  \<open>output_check_table\<close>: the first component is the caller's list object after the call
  (it is sorted in place before anything can raise), the second the raised error or the
  lines printed. \<open>terminal_width\<close> is \<open>shutil.get_terminal_size((80, 1)).columns\<close>, a
  positive integer taken from \<open>COLUMNS\<close> or from the terminal.
\<close>

definition output_check_table ::
    "(int \<Rightarrow> nat) \<Rightarrow> Check list \<Rightarrow> int \<Rightarrow> string \<Rightarrow> Check list \<times> (error + string list)" where
  "output_check_table floor_log10 pr_statuses terminal_width recent_cutoff =
     (let sorted_statuses = sort_reverse createdAt pr_statuses
      in (sorted_statuses,
          (case pr_numbers sorted_statuses of
             Inl e \<Rightarrow> Inl e
           | Inr ns \<Rightarrow>
               (case prnum_len floor_log10 ns of
                  Inl e \<Rightarrow> Inl e
                | Inr len \<Rightarrow>
                    table_rows sorted_statuses ns len (items_per_row terminal_width len)
                      recent_cutoff))))"

section \<open>Resolving check definitions (\<open>get_all_checks\<close> of \<open>overview.py\<close>)\<close>

definition DEFAULTENV :: string where
  "DEFAULTENV = ''DEFAULTS.env''"

text \<open>
  The definitions directory: a path is the list of its components below \<open>defs_dir\<close>, and
  the tree maps the path of each existing file to the variables \<open>parse_env_file\<close> reads
  from it (\<open>os.path.exists\<close> is definedness).
\<close>

type_synonym path = "string list"
type_synonym tree = "path \<rightharpoonup> env"

text \<open>The loop of \<open>overview.py\<close>, lines 126-131, over the candidate files in order.\<close>

fun update_from_files :: "tree \<Rightarrow> path list \<Rightarrow> env \<Rightarrow> env" where
  "update_from_files fs [] check = check"
| "update_from_files fs (envpath # rest) check =
     update_from_files fs rest
       (case fs envpath of Some vars \<Rightarrow> dict_update check vars | None \<Rightarrow> check)"

definition merged_check :: "tree \<Rightarrow> string \<Rightarrow> string \<Rightarrow> string \<Rightarrow> env" where
  "merged_check fs role docker envf =
     update_from_files fs
       [[DEFAULTENV], [role, DEFAULTENV], [role, docker, DEFAULTENV], [role, docker, envf]]
       Map.empty"

text \<open>The pair \<open>(all_checks, name_table)\<close> built by the loop.\<close>

type_synonym catalog = "((string \<times> string) \<rightharpoonup> string list) \<times> env"

text \<open>
  One iteration of the loop of lines 117-139. The glob pattern \<open>*/*/*.env\<close> yields paths of
  exactly three components below \<open>defs_dir\<close>, so an entry is a triple
  \<open>(role, docker, env)\<close>; \<open>continue\<close> leaves the catalog as it is, a failed subscript
  raises out of the function.
\<close>

definition process_env_path ::
    "tree \<Rightarrow> string list \<Rightarrow> string list \<Rightarrow> string list \<Rightarrow> string list
      \<Rightarrow> string \<times> string \<times> string \<Rightarrow> catalog \<Rightarrow> error + catalog" where
  "process_env_path fs roles containers repos checks env_path cat =
     (case env_path of
        (role, docker, envf) \<Rightarrow>
          if envf = DEFAULTENV then Inr cat
          else if roles \<noteq> [] \<and> role \<notin> set roles then Inr cat
          else if containers \<noteq> [] \<and> docker \<notin> set containers then Inr cat
          else
            (let check = merged_check fs role docker envf
             in case subscript check ''PR_REPO'' of
                  Inl e \<Rightarrow> Inl e
                | Inr repo_v \<Rightarrow>
                    (case subscript check ''PR_BRANCH'' of
                       Inl e \<Rightarrow> Inl e
                     | Inr branch_v \<Rightarrow>
                         (case subscript check ''CHECK_NAME'' of
                            Inl e \<Rightarrow> Inl e
                          | Inr name_v \<Rightarrow>
                              if repos \<noteq> [] \<and> repo_v \<notin> set repos then Inr cat
                              else if checks \<noteq> [] \<and> name_v \<notin> set checks then Inr cat
                              else
                                (case subscript check ''CI_NAME'' of
                                   Inl e \<Rightarrow> Inl e
                                 | Inr ci \<Rightarrow>
                                     Inr (dd_append (fst cat) (repo_v, branch_v) name_v,
                                          (snd cat)(name_v \<mapsto> ci)))))))"

fun glob_loop ::
    "tree \<Rightarrow> string list \<Rightarrow> string list \<Rightarrow> string list \<Rightarrow> string list
      \<Rightarrow> (string \<times> string \<times> string) list \<Rightarrow> catalog \<Rightarrow> error + catalog" where
  "glob_loop fs roles containers repos checks [] cat = Inr cat"
| "glob_loop fs roles containers repos checks (env_path # rest) cat =
     (case process_env_path fs roles containers repos checks env_path cat of
        Inl e \<Rightarrow> Inl e
      | Inr cat' \<Rightarrow> glob_loop fs roles containers repos checks rest cat')"

text \<open>
  \<open>get_all_checks\<close> of \<open>overview.py\<close>; \<open>globbed\<close> is the result of \<open>glob.glob\<close>, in the
  order the loop visits it.
\<close>

definition get_all_checks ::
    "tree \<Rightarrow> (string \<times> string \<times> string) list \<Rightarrow> string list \<Rightarrow> string list
      \<Rightarrow> string list \<Rightarrow> string list \<Rightarrow> error + catalog" where
  "get_all_checks fs globbed roles containers repos checks =
     glob_loop fs roles containers repos checks globbed (Map.empty, Map.empty)"

text \<open>
  A globbed entry that the loop does not skip before it reads the required keys: not a
  defaults file, and let through by the role and container filters.
\<close>

definition examined :: "string list \<Rightarrow> string list \<Rightarrow> string \<times> string \<times> string \<Rightarrow> bool" where
  "examined roles containers env_path =
     (case env_path of
        (role, docker, envf) \<Rightarrow>
          envf \<noteq> DEFAULTENV \<and> (roles = [] \<or> role \<in> set roles) \<and>
          (containers = [] \<or> docker \<in> set containers))"

text \<open>A level of the hierarchy as a dictionary: a missing file contributes nothing.\<close>

definition level :: "tree \<Rightarrow> path \<Rightarrow> env" where
  "level fs p = (case fs p of None \<Rightarrow> Map.empty | Some vars \<Rightarrow> vars)"

section \<open>Example data\<close>

text \<open>A pull request with one commit that has no status yet, used in concrete checks.\<close>

definition example_pull :: PullRequest where
  "example_pull =
     \<lparr>number = 7, title = ''fix bug'', isDraft = False,
      commits = [\<lparr>oid = ''abc'', status = None\<rparr>]\<rparr>"

definition example_client :: client where
  "example_client = (\<lambda>request. [example_pull])"

text \<open>
  A pull request whose title starts with \<open>[WIP]\<close>, one with \<open>[WIP]\<close> later in its title, a
  draft, one whose title starts with \<open>[wip]\<close> in lower case, and a client returning them.
\<close>

definition wip_pull :: PullRequest where
  "wip_pull = \<lparr>number = 8, title = ''[WIP] fix bug'', isDraft = False,
      commits = [\<lparr>oid = ''def'', status = None\<rparr>]\<rparr>"

definition later_wip_pull :: PullRequest where
  "later_wip_pull = \<lparr>number = 9, title = ''fix [WIP] bug'', isDraft = False,
      commits = [\<lparr>oid = ''fed'', status = None\<rparr>]\<rparr>"

definition draft_pull :: PullRequest where
  "draft_pull = \<lparr>number = 10, title = ''new feature'', isDraft = True,
      commits = []\<rparr>"

definition lower_wip_pull :: PullRequest where
  "lower_wip_pull = \<lparr>number = 11, title = ''[wip] fix bug'', isDraft = False,
      commits = [\<lparr>oid = ''aaa'', status = None\<rparr>]\<rparr>"

definition mixed_client :: client where
  "mixed_client = (\<lambda>request. [wip_pull, later_wip_pull, draft_pull, lower_wip_pull])"

text \<open>
  A pull request whose commit reports the context \<open>unit\<close> twice, first pending and then
  successful, and a names table.
\<close>

definition pending_context :: Check where
  "pending_context =
     \<lparr>context_name = ''unit'', state = PENDING, createdAt = ''2023-12-31T09:00:00Z'',
      repo = None, pr = None, commit_sha = None, ci_name = None\<rparr>"

definition success_context :: Check where
  "success_context =
     \<lparr>context_name = ''unit'', state = SUCCESS, createdAt = ''2023-12-31T10:00:00Z'',
      repo = None, pr = None, commit_sha = None, ci_name = None\<rparr>"

definition reported_pull :: PullRequest where
  "reported_pull =
     \<lparr>number = 12, title = ''add tests'', isDraft = False,
      commits = [\<lparr>oid = ''0a1'', status = Some [pending_context, success_context]\<rparr>]\<rparr>"

definition two_pull_client :: client where
  "two_pull_client = (\<lambda>request. [example_pull, reported_pull])"

definition example_names :: env where
  "example_names = [''unit'' \<mapsto> ''unit-ci'', ''lint'' \<mapsto> ''lint-ci'']"

text \<open>
  A four-level override chain, and the tree of the end-to-end scenario with a second check
  file that lacks \<open>CHECK_NAME\<close>.
\<close>

definition chain_tree :: tree where
  "chain_tree =
     [[DEFAULTENV] \<mapsto> [''A'' \<mapsto> ''root'', ''B'' \<mapsto> ''root'', ''C'' \<mapsto> ''root'', ''D'' \<mapsto> ''root''],
      [''build'', DEFAULTENV] \<mapsto> [''A'' \<mapsto> ''role'', ''B'' \<mapsto> ''role'', ''C'' \<mapsto> ''role''],
      [''build'', ''gcc'', DEFAULTENV] \<mapsto> [''A'' \<mapsto> ''container'', ''B'' \<mapsto> ''container''],
      [''build'', ''gcc'', ''unit.env''] \<mapsto> [''A'' \<mapsto> ''own'']]"

definition widgets_tree :: tree where
  "widgets_tree =
     [[DEFAULTENV] \<mapsto> [''PR_REPO'' \<mapsto> ''acme/widgets''],
      [''build'', ''gcc'', ''unit.env''] \<mapsto>
        [''CHECK_NAME'' \<mapsto> ''unit-gcc'', ''CI_NAME'' \<mapsto> ''unit-gcc-ci'', ''PR_BRANCH'' \<mapsto> ''main''],
      [''build'', ''gcc'', ''lint.env''] \<mapsto>
        [''CI_NAME'' \<mapsto> ''lint-gcc-ci'', ''PR_BRANCH'' \<mapsto> ''main'']]"

text \<open>Statuses for the renderers: an error without link data, an older and a newer result.\<close>

definition error_status :: Check where
  "error_status =
     \<lparr>context_name = ''unit'', state = ERROR, createdAt = ''2024-01-01T00:00:00Z'',
      repo = None, pr = None, commit_sha = None, ci_name = None\<rparr>"

definition old_status :: Check where
  "old_status =
     \<lparr>context_name = ''unit'', state = SUCCESS, createdAt = ''2024-01-01T00:00:00Z'',
      repo = Some ''acme/widgets'', pr = Some 7,
      commit_sha = Some ''abc'', ci_name = Some ''unit-ci''\<rparr>"

definition new_status :: Check where
  "new_status =
     \<lparr>context_name = ''unit'', state = PENDING, createdAt = ''2024-01-03T00:00:00Z'',
      repo = Some ''acme/widgets'', pr = Some 12,
      commit_sha = Some ''def'', ci_name = Some ''unit-ci''\<rparr>"

text \<open>
  The value of \<open>math.floor(math.log10(m))\<close> for the pull-request numbers of the examples,
  which have one or two digits.
\<close>

definition example_floor_log10 :: "int \<Rightarrow> nat" where
  "example_floor_log10 m = (if m < 10 then 0 else 1)"

section \<open>Properties of the table layout\<close>

lemma items_per_row_eq: "items_per_row w l = (w - 2) div (int l + 3)"
  by (simp add: items_per_row_def INDENT_def SEPARATOR_def add.commute)

text \<open>
  Claim C3, as stated, fails: the source takes no minimum. In a terminal three columns
  wide (\<open>COLUMNS=3\<close>) with one-digit pull-request numbers \<open>items_per_row\<close> is \<open>1 // 4 = 0\<close>
  and printing a table of one status raises \<open>ZeroDivisionError\<close>; for the width 0 that
  the claim names, the expression is \<open>-2 // 4 = -1\<close>.
\<close>

theorem items_per_row_narrow_counterexample:
  "\<not> 1 \<le> items_per_row 3 1 \<and>
   snd (output_check_table example_floor_log10 [old_status] 3 ''2024-01-02T00:00:00Z'')
     = Inl ZeroDivisionError \<and>
   \<not> 1 \<le> items_per_row 0 1"
  by (simp add: items_per_row_eq output_check_table_def Let_def sort_reverse_def
      old_status_def prnum_len_def example_floor_log10_def table_rows_def)

text \<open>
  Claim C3, amended: \<open>items_per_row\<close> is at least 1 exactly when the display is at least
  \<open>prnum_len + 5\<close> columns wide. For widths from 2 up to \<open>prnum_len + 4\<close> it is 0, and laying
  out a non-empty list then raises \<open>ZeroDivisionError\<close>; for widths below 2 it is negative.
\<close>

theorem items_per_row_sign:
  "(1 \<le> items_per_row w l) = (int l + 5 \<le> w) \<and>
   (items_per_row w l = 0) = (2 \<le> w \<and> w < int l + 5) \<and>
   (items_per_row w l < 0) = (w < 2) \<and>
   (table_rows (st # sts) ns l (items_per_row w l) cutoff = Inl ZeroDivisionError)
     = (2 \<le> w \<and> w < int l + 5)"
proof -
  have pos: "0 < int l + 3" by simp
  have a: "(1 \<le> (w - 2) div (int l + 3)) = (int l + 5 \<le> w)"
    using pos_imp_zdiv_pos_iff [OF pos, of "w - 2"] by linarith
  have b: "((w - 2) div (int l + 3) < 0) = (w < 2)"
    using pos_imp_zdiv_neg_iff [OF pos, of "w - 2"] by linarith
  have c: "((w - 2) div (int l + 3) = 0) = (2 \<le> w \<and> w < int l + 5)"
    using a b by linarith
  show ?thesis
    using a b c by (simp add: items_per_row_eq table_rows_def)
qed

theorem items_per_row_sign_witness:
  "items_per_row 80 2 = 15 \<and> items_per_row 6 2 = 0 \<and> items_per_row 7 2 = 1 \<and>
   items_per_row 1 2 = - 1"
  using items_per_row_sign [of 80 2] items_per_row_sign [of 6 2] items_per_row_sign [of 1 2]
  by (simp add: items_per_row_eq)

section \<open>Properties of \<open>get_check_statuses\<close>\<close>

lemma str_partition_absent:
  "sep \<notin> set s \<Longrightarrow> str_partition sep s = (s, False, [])"
  by (induction s) auto

lemma str_partition_present:
  "sep \<in> set s \<Longrightarrow>
   \<exists>h t. str_partition sep s = (h, True, t) \<and> s = h @ sep # t \<and> sep \<notin> set h"
  by (induction s) (auto split: prod.splits)

lemma checks_loop_no_ValueError:
  "checks_loop now r nt pull commit checks sts \<noteq> Inl (ValueError msg)"
  by (induction checks arbitrary: sts) (auto split: option.splits)

lemma pulls_loop_no_ValueError:
  "pulls_loop now r nt checks pulls sts \<noteq> Inl (ValueError msg)"
proof (induction pulls arbitrary: sts)
  case Nil
  then show ?case by simp
next
  case (Cons pull pulls)
  then show ?case
    using checks_loop_no_ValueError [of now r nt pull _ checks sts msg]
    by (auto split: list.splits sum.splits)
qed

text \<open>
  Claim C10: a repository argument without \<open>'/'\<close> raises \<open>ValueError\<close> and no request is
  sent to the client; with a \<open>'/'\<close> the text before the first one is the owner and the
  rest the repository name of the single request sent, and no \<open>ValueError\<close> is raised.
\<close>

theorem get_check_statuses_slash:
  "(CHR ''/'' \<notin> set repo_arg \<longrightarrow>
      get_check_statuses now cl repo_arg base checks names_table =
        ([], Inl (ValueError ''repository name must contain a slash''))) \<and>
   (CHR ''/'' \<in> set repo_arg \<longrightarrow>
      (\<exists>owner repo_name.
         repo_arg = owner @ CHR ''/'' # repo_name \<and> CHR ''/'' \<notin> set owner \<and>
         get_check_statuses now cl repo_arg base checks names_table =
           ([(owner, repo_name, base)],
            pulls_loop now repo_arg names_table checks (cl (owner, repo_name, base))
              Map.empty)) \<and>
      (\<forall>msg. snd (get_check_statuses now cl repo_arg base checks names_table)
               \<noteq> Inl (ValueError msg)))"
proof (intro conjI impI)
  assume "CHR ''/'' \<notin> set repo_arg"
  then show "get_check_statuses now cl repo_arg base checks names_table =
        ([], Inl (ValueError ''repository name must contain a slash''))"
    by (simp add: get_check_statuses_def str_partition_absent)
next
  assume "CHR ''/'' \<in> set repo_arg"
  from str_partition_present [OF this] obtain h t where
    p: "str_partition CHR ''/'' repo_arg = (h, True, t)" and
    s: "repo_arg = h @ CHR ''/'' # t" "CHR ''/'' \<notin> set h"
    by blast
  have run: "get_check_statuses now cl repo_arg base checks names_table =
      ([(h, t, base)], pulls_loop now repo_arg names_table checks (cl (h, t, base)) Map.empty)"
    by (simp add: get_check_statuses_def p)
  show "\<exists>owner repo_name.
         repo_arg = owner @ CHR ''/'' # repo_name \<and> CHR ''/'' \<notin> set owner \<and>
         get_check_statuses now cl repo_arg base checks names_table =
           ([(owner, repo_name, base)],
            pulls_loop now repo_arg names_table checks (cl (owner, repo_name, base))
              Map.empty)"
    using s run by blast
  show "\<forall>msg. snd (get_check_statuses now cl repo_arg base checks names_table)
               \<noteq> Inl (ValueError msg)"
    by (simp add: run pulls_loop_no_ValueError)
qed

theorem get_check_statuses_slash_witness:
  "get_check_statuses ''2024-01-01T00:00:00Z'' (\<lambda>_. [example_pull]) ''widgets'' ''main''
     [''unit''] [''unit'' \<mapsto> ''unit-ci'']
   = ([], Inl (ValueError ''repository name must contain a slash'')) \<and>
   fst (get_check_statuses ''2024-01-01T00:00:00Z'' (\<lambda>_. [example_pull]) ''acme/widgets/x''
          ''main'' [''unit''] [''unit'' \<mapsto> ''unit-ci''])
   = [(''acme'', ''widgets/x'', ''main'')]"
  using get_check_statuses_slash [of "''widgets''" "''2024-01-01T00:00:00Z''"
      "\<lambda>_. [example_pull]" "''main''" "[''unit'']" "[''unit'' \<mapsto> ''unit-ci'']"]
    get_check_statuses_slash [of "''acme/widgets/x''" "''2024-01-01T00:00:00Z''"
      "\<lambda>_. [example_pull]" "''main''" "[''unit'']" "[''unit'' \<mapsto> ''unit-ci'']"]
  by (simp add: get_check_statuses_def)

lemma dd_get_append: "dd_get (dd_append sts k v) c = (if c = k then dd_get sts k @ [v] else dd_get sts c)"
  by (simp add: dd_get_def dd_append_def)

lemma dom_dd_append: "dom (dd_append sts k v) = insert k (dom sts)"
  by (simp add: dd_append_def)

lemma status_record_expected:
  "names_table check = Some ci \<Longrightarrow> commits pull = commit # rest \<Longrightarrow>
   status_record now repo_arg pull commit check ci = expected_record now repo_arg names_table pull check"
  by (simp add: status_record_def expected_record_def)

lemma checks_loop_Inr:
  "checks_loop now r nt pull commit checks sts = Inr sts' \<Longrightarrow> commits pull = commit # rest \<Longrightarrow>
   dd_get sts' c = dd_get sts c @ replicate (count_list checks c) (expected_record now r nt pull c)"
proof (induction checks arbitrary: sts)
  case Nil
  then show ?case by simp
next
  case (Cons check checks)
  then obtain ci where ci: "nt check = Some ci" by (auto split: option.splits)
  with Cons.prems have run: "checks_loop now r nt pull commit checks
      (dd_append sts check (status_record now r pull commit check ci)) = Inr sts'"
    by simp
  show ?case
    using Cons.IH [OF run Cons.prems(2)] status_record_expected [of nt check ci pull commit rest now r, OF ci Cons.prems(2)]
    by (simp add: dd_get_append replicate_app_Cons_same)
qed

lemma checks_loop_dom:
  "checks_loop now r nt pull commit checks sts = Inr sts' \<Longrightarrow> dom sts' = dom sts \<union> set checks"
proof (induction checks arbitrary: sts)
  case Nil
  then show ?case by simp
next
  case (Cons check checks)
  then obtain ci where ci: "nt check = Some ci" by (auto split: option.splits)
  with Cons.prems have run: "checks_loop now r nt pull commit checks
      (dd_append sts check (status_record now r pull commit check ci)) = Inr sts'"
    by simp
  show ?case using Cons.IH [OF run] by (simp add: dom_dd_append)
qed

lemma checks_loop_total:
  "\<forall>c\<in>set checks. nt c \<noteq> None \<Longrightarrow> \<exists>sts'. checks_loop now r nt pull commit checks sts = Inr sts'"
  by (induction checks arbitrary: sts) auto

lemma pulls_loop_Inr:
  "pulls_loop now r nt checks pulls sts = Inr sts' \<Longrightarrow>
   dd_get sts' c = dd_get sts c @
     concat (map (\<lambda>p. replicate (count_list checks c) (expected_record now r nt p c)) (shown pulls))"
proof (induction pulls arbitrary: sts)
  case Nil
  then show ?case by (simp add: shown_def)
next
  case (Cons pull pulls)
  show ?case
  proof (cases "skipped pull")
    case True
    with Cons show ?thesis by (simp add: shown_def)
  next
    case False
    with Cons.prems obtain commit rest sts1 where
      cm: "commits pull = commit # rest" and
      inner: "checks_loop now r nt pull commit checks sts = Inr sts1" and
      outer: "pulls_loop now r nt checks pulls sts1 = Inr sts'"
      by (auto split: list.splits sum.splits)
    show ?thesis
      using Cons.IH [OF outer] checks_loop_Inr [OF inner cm, of c] False
      by (simp add: shown_def)
  qed
qed

lemma pulls_loop_dom:
  "pulls_loop now r nt checks pulls sts = Inr sts' \<Longrightarrow>
   dom sts' = dom sts \<union> (if shown pulls = [] then {} else set checks)"
proof (induction pulls arbitrary: sts)
  case Nil
  then show ?case by (simp add: shown_def)
next
  case (Cons pull pulls)
  show ?case
  proof (cases "skipped pull")
    case True
    with Cons show ?thesis by (simp add: shown_def)
  next
    case False
    with Cons.prems obtain commit rest sts1 where
      cm: "commits pull = commit # rest" and
      inner: "checks_loop now r nt pull commit checks sts = Inr sts1" and
      outer: "pulls_loop now r nt checks pulls sts1 = Inr sts'"
      by (auto split: list.splits sum.splits)
    show ?thesis
      using Cons.IH [OF outer] checks_loop_dom [OF inner] False
      by (auto simp add: shown_def)
  qed
qed

lemma pulls_loop_total:
  "\<forall>p\<in>set (shown pulls). commits p \<noteq> [] \<Longrightarrow> \<forall>c\<in>set checks. nt c \<noteq> None \<Longrightarrow>
   \<exists>sts'. pulls_loop now r nt checks pulls sts = Inr sts'"
proof (induction pulls arbitrary: sts)
  case Nil
  then show ?case by simp
next
  case (Cons pull pulls)
  show ?case
  proof (cases "skipped pull")
    case True
    with Cons show ?thesis by (simp add: shown_def)
  next
    case False
    with Cons.prems obtain commit rest where cm: "commits pull = commit # rest"
      by (cases "commits pull") (auto simp: shown_def)
    from checks_loop_total [OF Cons.prems(2)] obtain sts1 where
      inner: "checks_loop now r nt pull commit checks sts = Inr sts1" by blast
    from Cons.prems False have "\<forall>p\<in>set (shown pulls). commits p \<noteq> []" by (simp add: shown_def)
    from Cons.IH [OF this Cons.prems(2)] show ?thesis using False cm inner by simp
  qed
qed

lemma startswith_prefix: "startswith s p = prefix p s"
  by (auto simp: startswith_def prefix_def) (metis append_take_drop_id)

lemma skipped_prefix: "skipped p = (isDraft p \<or> prefix ''[WIP]'' (title p))"
  by (simp add: skipped_def startswith_prefix)

lemma find_append_last:
  "List.find P (xs @ [x]) = (case List.find P xs of None \<Rightarrow> (if P x then Some x else None) | Some y \<Rightarrow> Some y)"
  by (induction xs) auto

lemma contexts_of_fold:
  "foldl (\<lambda>m c. m(context_name c \<mapsto> c)) m0 cs k =
     (case List.find (\<lambda>c. context_name c = k) (rev cs) of None \<Rightarrow> m0 k | Some c \<Rightarrow> Some c)"
  by (induction cs arbitrary: m0) (auto simp: find_append_last split: option.splits)

lemma contexts_of_eq:
  "contexts_of commit k =
     (case status commit of None \<Rightarrow> None
      | Some cs \<Rightarrow> List.find (\<lambda>c. context_name c = k) (rev cs))"
  by (auto simp: contexts_of_def contexts_of_fold split: option.splits)

lemma records_for_concat:
  assumes "distinct (map number ps)" "p \<in> set ps"
  shows "filter (\<lambda>s. pr s = Some (number p))
           (concat (map (\<lambda>q. replicate n (expected_record now r nt q c)) ps))
         = replicate n (expected_record now r nt p c)"
  using assms
proof (induction ps)
  case Nil
  then show ?case by simp
next
  case (Cons q ps)
  have prq: "\<And>q. pr (expected_record now r nt q c) = Some (number q)"
    by (simp add: expected_record_def)
  show ?case
  proof (cases "q = p")
    case True
    with Cons.prems have "number p \<notin> number ` set ps" by simp
    then have "\<forall>q'\<in>set ps. number q' \<noteq> number p" by (metis imageI)
    then have "filter (\<lambda>s. pr s = Some (number p))
           (concat (map (\<lambda>q. replicate n (expected_record now r nt q c)) ps)) = []"
      by (auto simp: filter_empty_conv prq)
    with True show ?thesis by (simp add: prq)
  next
    case False
    with Cons.prems have "p \<in> set ps" "number q \<noteq> number p" "distinct (map number ps)"
      by auto
    with Cons.IH show ?thesis by (simp add: prq)
  qed
qed

lemma get_check_statuses_Inr:
  assumes "get_check_statuses now cl repo_arg base checks nt = (reqs, Inr sts)"
  shows "pulls_loop now repo_arg nt checks (concat (map cl reqs)) Map.empty = Inr sts"
  using assms
  by (auto simp: get_check_statuses_def split: prod.splits if_splits)

text \<open>
  Claim C5: when \<open>get_check_statuses\<close> of \<open>overview.py\<close> returns, a fetched pull request
  has no record under a requested check exactly when its draft flag is set or its title
  starts with the characters \<open>[WIP]\<close>; pull-request numbers identify the fetched pull
  requests.
\<close>

theorem skipped_iff_draft_or_wip:
  assumes run: "get_check_statuses now cl repo_arg base checks nt = (reqs, Inr sts)"
    and p: "p \<in> set (concat (map cl reqs))"
    and d: "distinct (map number (concat (map cl reqs)))"
    and c: "c \<in> set checks"
  shows "(records_for sts c (number p) = []) = (isDraft p \<or> prefix ''[WIP]'' (title p))"
proof -
  let ?pulls = "concat (map cl reqs)"
  have loop: "pulls_loop now repo_arg nt checks ?pulls Map.empty = Inr sts"
    by (rule get_check_statuses_Inr [OF run])
  have sts: "dd_get sts c =
      concat (map (\<lambda>q. replicate (count_list checks c) (expected_record now repo_arg nt q c))
                  (shown ?pulls))"
    using pulls_loop_Inr [OF loop, of c] by (simp add: dd_get_def)
  have pos: "0 < count_list checks c"
    using c count_list_0_iff [of checks c] by simp
  have prq: "\<And>q. pr (expected_record now repo_arg nt q c) = Some (number q)"
    by (simp add: expected_record_def)
  show ?thesis
  proof (cases "skipped p")
    case True
    have "\<forall>q\<in>set (shown ?pulls). number q \<noteq> number p"
    proof
      fix q assume q: "q \<in> set (shown ?pulls)"
      then have "q \<in> set ?pulls" "\<not> skipped q" by (auto simp: shown_def)
      with True p d show "number q \<noteq> number p"
        by (metis distinct_map inj_onD)
    qed
    then have "records_for sts c (number p) = []"
      by (auto simp: records_for_def sts filter_empty_conv prq)
    with True show ?thesis by (simp add: skipped_prefix)
  next
    case False
    with p have "p \<in> set (shown ?pulls)" by (simp add: shown_def)
    moreover have "distinct (map number (shown ?pulls))"
      using d by (simp add: shown_def distinct_map_filter)
    ultimately have "records_for sts c (number p) =
        replicate (count_list checks c) (expected_record now repo_arg nt p c)"
      by (simp add: records_for_def sts records_for_concat)
    with pos False show ?thesis by (simp add: skipped_prefix)
  qed
qed

lemma mixed_run:
  "\<exists>sts. get_check_statuses ''2024-01-01T00:00:00Z'' mixed_client ''acme/widgets'' ''main''
       [''unit''] [''unit'' \<mapsto> ''unit-ci''] = ([(''acme'', ''widgets'', ''main'')], Inr sts)"
  by (simp add: get_check_statuses_def mixed_client_def wip_pull_def later_wip_pull_def
      draft_pull_def lower_wip_pull_def skipped_def startswith_def)

theorem skipped_iff_draft_or_wip_witness:
  "\<exists>sts. get_check_statuses ''2024-01-01T00:00:00Z'' mixed_client ''acme/widgets'' ''main''
       [''unit''] [''unit'' \<mapsto> ''unit-ci''] = ([(''acme'', ''widgets'', ''main'')], Inr sts) \<and>
     records_for sts ''unit'' 8 = [] \<and> records_for sts ''unit'' 9 \<noteq> [] \<and>
     records_for sts ''unit'' 10 = [] \<and> records_for sts ''unit'' 11 \<noteq> []"
proof -
  from mixed_run obtain sts where
    run: "get_check_statuses ''2024-01-01T00:00:00Z'' mixed_client ''acme/widgets'' ''main''
       [''unit''] [''unit'' \<mapsto> ''unit-ci''] = ([(''acme'', ''widgets'', ''main'')], Inr sts)"
    by blast
  have d: "distinct (map number (concat (map mixed_client [(''acme'', ''widgets'', ''main'')])))"
    by (simp add: mixed_client_def wip_pull_def later_wip_pull_def draft_pull_def
        lower_wip_pull_def)
  have c: "''unit'' \<in> set [''unit'']" by simp
  have "records_for sts ''unit'' (number wip_pull) = []"
    using skipped_iff_draft_or_wip [OF run _ d c, of wip_pull]
    by (simp add: mixed_client_def wip_pull_def)
  moreover have "records_for sts ''unit'' (number later_wip_pull) \<noteq> []"
    using skipped_iff_draft_or_wip [OF run _ d c, of later_wip_pull]
    by (simp add: mixed_client_def later_wip_pull_def)
  moreover have "records_for sts ''unit'' (number draft_pull) = []"
    using skipped_iff_draft_or_wip [OF run _ d c, of draft_pull]
    by (simp add: mixed_client_def draft_pull_def)
  moreover have "records_for sts ''unit'' (number lower_wip_pull) \<noteq> []"
    using skipped_iff_draft_or_wip [OF run _ d c, of lower_wip_pull]
    by (simp add: mixed_client_def lower_wip_pull_def)
  ultimately show ?thesis
    using run by (auto simp: wip_pull_def later_wip_pull_def draft_pull_def lower_wip_pull_def)
qed

lemma find_first_match:
  "\<forall>x\<in>set xs. \<not> P x \<Longrightarrow> P y \<Longrightarrow> List.find P (xs @ y # ys) = Some y"
  by (induction xs) auto

lemma contexts_of_last:
  assumes "status commit = Some (before @ ctx # after)"
    and "context_name ctx = c" and "c \<notin> context_name ` set after"
  shows "contexts_of commit c = Some ctx"
proof -
  have "\<forall>x\<in>set (rev after). \<not> context_name x = c"
    using assms(3) by (metis imageI set_rev)
  then have "List.find (\<lambda>x. context_name x = c) (rev after @ ctx # rev before) = Some ctx"
    using assms(2) by (rule find_first_match)
  with assms(1) show ?thesis by (simp add: contexts_of_eq)
qed

lemma contexts_of_absent:
  "status commit = None \<Longrightarrow> contexts_of commit c = None"
  "status commit = Some cs \<Longrightarrow> c \<notin> context_name ` set cs \<Longrightarrow> contexts_of commit c = None"
  by (auto simp: contexts_of_eq find_None_iff)

lemma expected_record_synthetic:
  "contexts_of (hd (commits p)) c = None \<Longrightarrow>
   expected_record now r nt p c =
     \<lparr>context_name = c, state = EXPECTED, createdAt = now,
      repo = Some r, pr = Some (number p), commit_sha = Some (oid (hd (commits p))),
      ci_name = nt c\<rparr>"
  by (simp add: expected_record_def fallback_def)

lemma expected_record_reported:
  "contexts_of (hd (commits p)) c = Some ctx \<Longrightarrow>
   expected_record now r nt p c =
     ctx\<lparr>repo := Some r, pr := Some (number p),
         commit_sha := Some (oid (hd (commits p))), ci_name := nt c\<rparr>"
  by (simp add: expected_record_def)

lemma total_count:
  assumes "\<And>c. dd_get sts c = concat (map (\<lambda>p. replicate (count_list checks c) (f p c)) ps)"
  shows "(\<Sum>c\<in>set checks. length (dd_get sts c)) = length ps * length checks"
proof -
  have "\<And>c. length (dd_get sts c) = length ps * count_list checks c"
    unfolding assms by (induction ps) auto
  then have "(\<Sum>c\<in>set checks. length (dd_get sts c)) = length ps * (\<Sum>c\<in>set checks. count_list checks c)"
    by (simp add: sum_distrib_left)
  also have "(\<Sum>c\<in>set checks. count_list checks c) = length checks"
    by (rule sum_count_set) auto
  finally show ?thesis .
qed

text \<open>
  Claim C2, amended, for \<open>get_check_statuses\<close> of \<open>overview.py\<close>: for a repository argument
  \<open>owner/name\<close>, a response in which every pull request that is not skipped has a commit
  node, and a names table with an entry for every requested check, the call returns a
  dictionary in which each such pull request contributes, under each requested name, one
  record per occurrence of the name in the requested list, so exactly one when the names
  are distinct. When the commit node has no status, or no reported context has exactly
  that name, the record is the synthetic one: state \<open>EXPECTED\<close>, created at \<open>now\<close>. When
  contexts of that name are reported, the record is the last of them. Either way the
  record carries the repository, the pull-request number, the commit and the table's
  internal name. The dictionary has no other keys, and the records number
  \<open>|pull requests| * |checks|\<close>.
\<close>

theorem one_record_per_pull_and_check:
  assumes rp: "repo_arg = owner @ CHR ''/'' # repo_name" "CHR ''/'' \<notin> set owner"
    and cm: "\<forall>p\<in>set (shown (cl (owner, repo_name, base))). commits p \<noteq> []"
    and nt: "\<forall>c\<in>set checks. names_table c \<noteq> None"
  shows "\<exists>sts.
      get_check_statuses now cl repo_arg base checks names_table =
        ([(owner, repo_name, base)], Inr sts) \<and>
      (\<forall>c. dd_get sts c =
         concat (map (\<lambda>p. replicate (count_list checks c)
                             (expected_record now repo_arg names_table p c))
                     (shown (cl (owner, repo_name, base))))) \<and>
      (distinct checks \<longrightarrow>
         (\<forall>c\<in>set checks. dd_get sts c =
            map (\<lambda>p. expected_record now repo_arg names_table p c)
                (shown (cl (owner, repo_name, base))))) \<and>
      (distinct checks \<and> distinct (map number (shown (cl (owner, repo_name, base)))) \<longrightarrow>
         (\<forall>c\<in>set checks. \<forall>p\<in>set (shown (cl (owner, repo_name, base))).
            records_for sts c (number p) = [expected_record now repo_arg names_table p c])) \<and>
      (\<forall>p c.
         (status (hd (commits p)) = None \<longrightarrow>
            expected_record now repo_arg names_table p c =
              \<lparr>context_name = c, state = EXPECTED, createdAt = now,
               repo = Some repo_arg, pr = Some (number p),
               commit_sha = Some (oid (hd (commits p))), ci_name = names_table c\<rparr>) \<and>
         (\<forall>cs. status (hd (commits p)) = Some cs \<and> c \<notin> context_name ` set cs \<longrightarrow>
            expected_record now repo_arg names_table p c =
              \<lparr>context_name = c, state = EXPECTED, createdAt = now,
               repo = Some repo_arg, pr = Some (number p),
               commit_sha = Some (oid (hd (commits p))), ci_name = names_table c\<rparr>) \<and>
         (\<forall>before ctx after.
            status (hd (commits p)) = Some (before @ ctx # after) \<and> context_name ctx = c \<and>
            c \<notin> context_name ` set after \<longrightarrow>
            expected_record now repo_arg names_table p c =
              ctx\<lparr>repo := Some repo_arg, pr := Some (number p),
                  commit_sha := Some (oid (hd (commits p))), ci_name := names_table c\<rparr>)) \<and>
      dom sts \<subseteq> set checks \<and>
      (\<Sum>c\<in>set checks. length (dd_get sts c)) =
        length (shown (cl (owner, repo_name, base))) * length checks"
proof -
  let ?pulls = "cl (owner, repo_name, base)"
  let ?E = "\<lambda>p c. expected_record now repo_arg names_table p c"
  have part: "str_partition CHR ''/'' repo_arg = (owner, True, repo_name)"
    using str_partition_present [of "CHR ''/''" repo_arg] rp
    by (auto simp: append_eq_append_conv2 append_eq_Cons_conv Cons_eq_append_conv)
  from pulls_loop_total [OF cm nt] obtain sts where
    loop: "pulls_loop now repo_arg names_table checks ?pulls Map.empty = Inr sts" by blast
  have run: "get_check_statuses now cl repo_arg base checks names_table =
        ([(owner, repo_name, base)], Inr sts)"
    by (simp add: get_check_statuses_def part loop)
  have all: "\<And>c. dd_get sts c =
      concat (map (\<lambda>p. replicate (count_list checks c) (?E p c)) (shown ?pulls))"
    using pulls_loop_Inr [OF loop] by (simp add: dd_get_def)
  have one: "distinct checks \<Longrightarrow> c \<in> set checks \<Longrightarrow> count_list checks c = 1" for c
    by (induction checks) (auto simp: count_list_0_iff)
  have dist: "distinct checks \<longrightarrow> (\<forall>c\<in>set checks. dd_get sts c = map (\<lambda>p. ?E p c) (shown ?pulls))"
  proof (intro impI ballI)
    fix c assume "distinct checks" "c \<in> set checks"
    then have "count_list checks c = 1" by (rule one)
    then show "dd_get sts c = map (\<lambda>p. ?E p c) (shown ?pulls)"
      by (simp add: all concat_map_singleton)
  qed
  have pair: "distinct checks \<and> distinct (map number (shown ?pulls)) \<longrightarrow>
         (\<forall>c\<in>set checks. \<forall>p\<in>set (shown ?pulls). records_for sts c (number p) = [?E p c])"
  proof (intro impI ballI)
    fix c p assume h: "distinct checks \<and> distinct (map number (shown ?pulls))"
      and c: "c \<in> set checks" and p: "p \<in> set (shown ?pulls)"
    from h c have "count_list checks c = 1" by (simp add: one)
    moreover have "filter (\<lambda>s. pr s = Some (number p))
        (concat (map (\<lambda>q. replicate (count_list checks c) (?E q c)) (shown ?pulls)))
        = replicate (count_list checks c) (?E p c)"
      using h p by (intro records_for_concat) simp_all
    ultimately show "records_for sts c (number p) = [?E p c]"
      by (simp add: records_for_def all)
  qed
  have fields: "\<forall>p c.
         (status (hd (commits p)) = None \<longrightarrow>
            ?E p c =
              \<lparr>context_name = c, state = EXPECTED, createdAt = now,
               repo = Some repo_arg, pr = Some (number p),
               commit_sha = Some (oid (hd (commits p))), ci_name = names_table c\<rparr>) \<and>
         (\<forall>cs. status (hd (commits p)) = Some cs \<and> c \<notin> context_name ` set cs \<longrightarrow>
            ?E p c =
              \<lparr>context_name = c, state = EXPECTED, createdAt = now,
               repo = Some repo_arg, pr = Some (number p),
               commit_sha = Some (oid (hd (commits p))), ci_name = names_table c\<rparr>) \<and>
         (\<forall>before ctx after.
            status (hd (commits p)) = Some (before @ ctx # after) \<and> context_name ctx = c \<and>
            c \<notin> context_name ` set after \<longrightarrow>
            ?E p c =
              ctx\<lparr>repo := Some repo_arg, pr := Some (number p),
                  commit_sha := Some (oid (hd (commits p))), ci_name := names_table c\<rparr>)"
  proof (intro allI conjI impI)
    fix p :: PullRequest and c :: string
    assume "status (hd (commits p)) = None"
    then have "contexts_of (hd (commits p)) c = None" by (rule contexts_of_absent(1))
    then show "?E p c =
              \<lparr>context_name = c, state = EXPECTED, createdAt = now,
               repo = Some repo_arg, pr = Some (number p),
               commit_sha = Some (oid (hd (commits p))), ci_name = names_table c\<rparr>"
      by (rule expected_record_synthetic)
  next
    fix p :: PullRequest and c :: string and cs :: "Check list"
    assume "status (hd (commits p)) = Some cs \<and> c \<notin> context_name ` set cs"
    then have "contexts_of (hd (commits p)) c = None"
      using contexts_of_absent(2) [of "hd (commits p)" cs c] by simp
    then show "?E p c =
              \<lparr>context_name = c, state = EXPECTED, createdAt = now,
               repo = Some repo_arg, pr = Some (number p),
               commit_sha = Some (oid (hd (commits p))), ci_name = names_table c\<rparr>"
      by (rule expected_record_synthetic)
  next
    fix p :: PullRequest and c :: string and before :: "Check list" and ctx :: Check
      and after :: "Check list"
    assume "status (hd (commits p)) = Some (before @ ctx # after) \<and> context_name ctx = c \<and>
            c \<notin> context_name ` set after"
    then have "contexts_of (hd (commits p)) c = Some ctx"
      using contexts_of_last [of "hd (commits p)" before ctx after c] by simp
    then show "?E p c =
              ctx\<lparr>repo := Some repo_arg, pr := Some (number p),
                  commit_sha := Some (oid (hd (commits p))), ci_name := names_table c\<rparr>"
      by (rule expected_record_reported)
  qed
  have dom: "dom sts \<subseteq> set checks"
    using pulls_loop_dom [OF loop] by (auto split: if_splits)
  have total: "(\<Sum>c\<in>set checks. length (dd_get sts c)) = length (shown ?pulls) * length checks"
    by (rule total_count [OF all])
  from all have all': "\<forall>c. dd_get sts c =
      concat (map (\<lambda>p. replicate (count_list checks c) (?E p c)) (shown ?pulls))"
    by simp
  show ?thesis
    by (rule exI [of _ sts]) (intro conjI run all' dist pair fields dom total)
qed

text \<open>
  Claim C2, as stated, fails when a check name is requested twice: the pair of the check
  \<open>unit\<close> and pull request 7 then has two records.
\<close>

theorem duplicate_check_name_counterexample:
  "length (records_for
     (returned (snd (get_check_statuses ''2024-01-01T00:00:00Z'' example_client ''acme/widgets''
        ''main'' [''unit'', ''unit''] example_names))) ''unit'' 7) = 2"
  by (simp add: get_check_statuses_def example_client_def example_pull_def example_names_def
      skipped_def startswith_def dd_append_def dd_get_def records_for_def returned_def
      status_record_def contexts_of_def fallback_def)

theorem one_record_per_pull_and_check_witness:
  "\<exists>sts. get_check_statuses ''2024-01-01T00:00:00Z'' two_pull_client ''acme/widgets'' ''main''
       [''unit'', ''lint''] example_names = ([(''acme'', ''widgets'', ''main'')], Inr sts) \<and>
     map state (dd_get sts ''unit'') = [EXPECTED, SUCCESS] \<and>
     map createdAt (dd_get sts ''unit'') = [''2024-01-01T00:00:00Z'', ''2023-12-31T10:00:00Z''] \<and>
     map state (dd_get sts ''lint'') = [EXPECTED, EXPECTED] \<and>
     map pr (dd_get sts ''lint'') = [Some 7, Some 12] \<and>
     map ci_name (dd_get sts ''lint'') = [Some ''lint-ci'', Some ''lint-ci''] \<and>
     length (records_for sts ''unit'' 12) = 1 \<and>
     (\<Sum>c\<in>set [''unit'', ''lint'']. length (dd_get sts c)) = 4"
proof -
  let ?now = "''2024-01-01T00:00:00Z''"
  let ?E = "expected_record ?now ''acme/widgets'' example_names"
  have rp: "''acme/widgets'' = ''acme'' @ CHR ''/'' # ''widgets''" "CHR ''/'' \<notin> set ''acme''"
    by simp_all
  have cm: "\<forall>p\<in>set (shown (two_pull_client (''acme'', ''widgets'', ''main''))). commits p \<noteq> []"
    by (simp add: shown_def two_pull_client_def example_pull_def reported_pull_def)
  have nt: "\<forall>c\<in>set [''unit'', ''lint'']. example_names c \<noteq> None"
    by (simp add: example_names_def)
  have sh: "shown (two_pull_client (''acme'', ''widgets'', ''main'')) = [example_pull, reported_pull]"
    by (simp add: shown_def two_pull_client_def example_pull_def reported_pull_def skipped_def
        startswith_def)
  have st_ex: "status (hd (commits example_pull)) = None"
    by (simp add: example_pull_def)
  have st_re: "status (hd (commits reported_pull)) = Some ([pending_context] @ success_context # [])"
    by (simp add: reported_pull_def)
  have names: "context_name success_context = ''unit''"
    "''lint'' \<notin> context_name ` set ([pending_context] @ success_context # [])"
    by (simp_all add: success_context_def pending_context_def)
  from one_record_per_pull_and_check [where repo_arg = "''acme/widgets''" and owner = "''acme''"
      and repo_name = "''widgets''" and cl = two_pull_client and base = "''main''"
      and checks = "[''unit'', ''lint'']" and names_table = example_names
      and now = ?now, OF rp cm nt]
  obtain sts where
    run: "get_check_statuses ?now two_pull_client ''acme/widgets'' ''main''
       [''unit'', ''lint''] example_names = ([(''acme'', ''widgets'', ''main'')], Inr sts)" and
    all: "\<forall>c. dd_get sts c =
         concat (map (\<lambda>p. replicate (count_list [''unit'', ''lint''] c) (?E p c))
                     (shown (two_pull_client (''acme'', ''widgets'', ''main''))))" and
    fields: "\<forall>p c.
         (status (hd (commits p)) = None \<longrightarrow>
            ?E p c =
              \<lparr>context_name = c, state = EXPECTED, createdAt = ?now,
               repo = Some ''acme/widgets'', pr = Some (number p),
               commit_sha = Some (oid (hd (commits p))), ci_name = example_names c\<rparr>) \<and>
         (\<forall>cs. status (hd (commits p)) = Some cs \<and> c \<notin> context_name ` set cs \<longrightarrow>
            ?E p c =
              \<lparr>context_name = c, state = EXPECTED, createdAt = ?now,
               repo = Some ''acme/widgets'', pr = Some (number p),
               commit_sha = Some (oid (hd (commits p))), ci_name = example_names c\<rparr>) \<and>
         (\<forall>before ctx after.
            status (hd (commits p)) = Some (before @ ctx # after) \<and> context_name ctx = c \<and>
            c \<notin> context_name ` set after \<longrightarrow>
            ?E p c =
              ctx\<lparr>repo := Some ''acme/widgets'', pr := Some (number p),
                  commit_sha := Some (oid (hd (commits p))), ci_name := example_names c\<rparr>)" and
    total: "(\<Sum>c\<in>set [''unit'', ''lint'']. length (dd_get sts c)) =
        length (shown (two_pull_client (''acme'', ''widgets'', ''main''))) * length [''unit'', ''lint'']"
    by (elim exE conjE) blast
  from fields have
    none: "status (hd (commits p)) = None \<Longrightarrow>
            ?E p c =
              \<lparr>context_name = c, state = EXPECTED, createdAt = ?now,
               repo = Some ''acme/widgets'', pr = Some (number p),
               commit_sha = Some (oid (hd (commits p))), ci_name = example_names c\<rparr>" for p c
    by blast
  from fields have
    absent: "status (hd (commits p)) = Some cs \<Longrightarrow> c \<notin> context_name ` set cs \<Longrightarrow>
            ?E p c =
              \<lparr>context_name = c, state = EXPECTED, createdAt = ?now,
               repo = Some ''acme/widgets'', pr = Some (number p),
               commit_sha = Some (oid (hd (commits p))), ci_name = example_names c\<rparr>" for p c cs
    by blast
  from fields have
    last: "status (hd (commits p)) = Some (before @ ctx # after) \<Longrightarrow> context_name ctx = c \<Longrightarrow>
            c \<notin> context_name ` set after \<Longrightarrow>
            ?E p c =
              ctx\<lparr>repo := Some ''acme/widgets'', pr := Some (number p),
                  commit_sha := Some (oid (hd (commits p))), ci_name := example_names c\<rparr>"
      for p c before ctx after
    by blast
  have e1: "state (?E example_pull c) = EXPECTED" "createdAt (?E example_pull c) = ?now"
    "pr (?E example_pull c) = Some 7" "ci_name (?E example_pull c) = example_names c" for c
    using none [OF st_ex, of c] by (simp_all add: example_pull_def)
  have e2: "state (?E reported_pull ''unit'') = SUCCESS"
    "createdAt (?E reported_pull ''unit'') = ''2023-12-31T10:00:00Z''"
    "pr (?E reported_pull ''unit'') = Some 12"
    using last [OF st_re names(1)]
    by (simp_all add: success_context_def reported_pull_def)
  have e3: "state (?E reported_pull ''lint'') = EXPECTED"
    "pr (?E reported_pull ''lint'') = Some 12"
    "ci_name (?E reported_pull ''lint'') = example_names ''lint''"
    using absent [OF st_re names(2)]
    by (simp_all add: reported_pull_def)
  have u: "dd_get sts ''unit'' = [?E example_pull ''unit'', ?E reported_pull ''unit'']"
    using all by (simp add: sh)
  have l: "dd_get sts ''lint'' = [?E example_pull ''lint'', ?E reported_pull ''lint'']"
    using all by (simp add: sh)
  have nl: "example_names ''lint'' = Some ''lint-ci''"
    by (simp add: example_names_def)
  show ?thesis
    using run total
    by (simp add: u l sh e1 e2 e3 nl records_for_def)
qed

section \<open>Properties of \<open>get_all_checks\<close>\<close>

lemma dict_update_map_add: "dict_update d e = d ++ e"
  by (rule ext) (simp add: dict_update_def map_add_def)

lemma update_from_files_fold:
  "update_from_files fs ps check = foldl (\<lambda>d p. d ++ level fs p) check ps"
  by (induction ps arbitrary: check)
     (auto simp: dict_update_map_add level_def split: option.splits)

text \<open>
  Claim C1: in \<open>get_all_checks\<close> of \<open>overview.py\<close> the configuration resolved for a check
  file is the right-biased union of the root defaults, the role defaults, the role and
  container defaults and the file itself, a missing file contributing nothing; so the value
  of a key is the one of the most specific level that defines it.
\<close>

theorem merged_check_is_union:
  "merged_check fs role docker envf =
     level fs [DEFAULTENV] ++ level fs [role, DEFAULTENV] ++
     level fs [role, docker, DEFAULTENV] ++ level fs [role, docker, envf] \<and>
   merged_check fs role docker envf k =
     (case level fs [role, docker, envf] k of
        Some v \<Rightarrow> Some v
      | None \<Rightarrow>
          (case level fs [role, docker, DEFAULTENV] k of
             Some v \<Rightarrow> Some v
           | None \<Rightarrow>
               (case level fs [role, DEFAULTENV] k of
                  Some v \<Rightarrow> Some v
                | None \<Rightarrow> level fs [DEFAULTENV] k)))"
proof -
  have m: "merged_check fs role docker envf =
     level fs [DEFAULTENV] ++ level fs [role, DEFAULTENV] ++
     level fs [role, docker, DEFAULTENV] ++ level fs [role, docker, envf]"
    by (simp add: merged_check_def update_from_files_fold)
  show ?thesis
    unfolding m
    by (simp add: map_add_def split: option.splits)
qed

theorem merged_check_is_union_witness:
  "merged_check chain_tree ''build'' ''gcc'' ''unit.env'' ''A'' = Some ''own'' \<and>
   merged_check chain_tree ''build'' ''gcc'' ''unit.env'' ''B'' = Some ''container'' \<and>
   merged_check chain_tree ''build'' ''gcc'' ''unit.env'' ''C'' = Some ''role'' \<and>
   merged_check chain_tree ''build'' ''gcc'' ''unit.env'' ''D'' = Some ''root'' \<and>
   merged_check chain_tree ''build'' ''gcc'' ''unit.env'' ''E'' = None"
  using merged_check_is_union [of chain_tree "''build''" "''gcc''" "''unit.env''" "''A''"]
    merged_check_is_union [of chain_tree "''build''" "''gcc''" "''unit.env''" "''B''"]
    merged_check_is_union [of chain_tree "''build''" "''gcc''" "''unit.env''" "''C''"]
    merged_check_is_union [of chain_tree "''build''" "''gcc''" "''unit.env''" "''D''"]
    merged_check_is_union [of chain_tree "''build''" "''gcc''" "''unit.env''" "''E''"]
  by (simp add: chain_tree_def level_def DEFAULTENV_def)

lemma process_env_path_errors:
  "process_env_path fs roles containers repos checks env_path cat = Inl e \<Longrightarrow>
   e \<in> KeyError ` {''PR_REPO'', ''PR_BRANCH'', ''CHECK_NAME'', ''CI_NAME''}"
  by (auto simp: process_env_path_def subscript_def Let_def
           split: prod.splits if_splits option.splits sum.splits)

lemma process_env_path_missing:
  assumes "examined roles containers (role, docker, envf)"
    and "merged_check fs role docker envf ''PR_REPO'' = None \<or>
         merged_check fs role docker envf ''PR_BRANCH'' = None \<or>
         merged_check fs role docker envf ''CHECK_NAME'' = None"
  shows "\<exists>k\<in>{''PR_REPO'', ''PR_BRANCH'', ''CHECK_NAME''}.
           process_env_path fs roles containers repos checks (role, docker, envf) cat
             = Inl (KeyError k)"
  using assms
  by (auto simp: process_env_path_def examined_def subscript_def Let_def
           split: option.splits)

lemma glob_loop_aborts:
  assumes "env_path \<in> set globbed"
    and "\<And>cat. \<exists>e. process_env_path fs roles containers repos checks env_path cat = Inl e"
  shows "\<exists>e. glob_loop fs roles containers repos checks globbed cat = Inl e"
  using assms(1)
proof (induction globbed arbitrary: cat)
  case Nil
  then show ?case by simp
next
  case (Cons x globbed)
  show ?case
  proof (cases "process_env_path fs roles containers repos checks x cat")
    case (Inl e)
    then show ?thesis by simp
  next
    case (Inr cat')
    with assms(2) [of cat] have "x \<noteq> env_path" by auto
    with Cons.prems have "env_path \<in> set globbed" by simp
    from Cons.IH [OF this, of cat'] Inr show ?thesis by simp
  qed
qed

lemma glob_loop_errors:
  "glob_loop fs roles containers repos checks globbed cat = Inl e \<Longrightarrow>
   e \<in> KeyError ` {''PR_REPO'', ''PR_BRANCH'', ''CHECK_NAME'', ''CI_NAME''}"
proof (induction globbed arbitrary: cat)
  case Nil
  then show ?case by simp
next
  case (Cons x globbed)
  then show ?case
    using process_env_path_errors [of fs roles containers repos checks x cat e]
    by (auto split: sum.splits)
qed

lemma glob_loop_append:
  "glob_loop fs roles containers repos checks (pre @ post) cat =
     (case glob_loop fs roles containers repos checks pre cat of
        Inl e \<Rightarrow> Inl e
      | Inr cat' \<Rightarrow> glob_loop fs roles containers repos checks post cat')"
  by (induction pre arbitrary: cat) (auto split: sum.splits)

text \<open>
  Claim C4, amended: when a globbed check file that the role and container filters let
  through has a merged configuration without \<open>PR_REPO\<close>, \<open>PR_BRANCH\<close> or \<open>CHECK_NAME\<close>,
  \<open>get_all_checks\<close> raises \<open>KeyError\<close> and returns no catalog, whatever else the tree
  holds; when the files before it in glob order resolve, the error names a key missing
  from that file.
\<close>

theorem missing_key_aborts_resolution:
  assumes ex: "examined roles containers (role, docker, envf)"
    and missing: "merged_check fs role docker envf ''PR_REPO'' = None \<or>
         merged_check fs role docker envf ''PR_BRANCH'' = None \<or>
         merged_check fs role docker envf ''CHECK_NAME'' = None"
  shows "((role, docker, envf) \<in> set globbed \<longrightarrow>
           (\<exists>k\<in>{''PR_REPO'', ''PR_BRANCH'', ''CHECK_NAME'', ''CI_NAME''}.
              get_all_checks fs globbed roles containers repos checks = Inl (KeyError k))) \<and>
         (\<forall>pre post cat.
            globbed = pre @ (role, docker, envf) # post \<and>
            glob_loop fs roles containers repos checks pre (Map.empty, Map.empty) = Inr cat \<longrightarrow>
            (\<exists>k\<in>{''PR_REPO'', ''PR_BRANCH'', ''CHECK_NAME''}.
               merged_check fs role docker envf k = None \<and>
               get_all_checks fs globbed roles containers repos checks = Inl (KeyError k)))"
proof (intro conjI impI allI)
  assume mem: "(role, docker, envf) \<in> set globbed"
  have "\<And>cat. \<exists>e. process_env_path fs roles containers repos checks (role, docker, envf) cat = Inl e"
    using process_env_path_missing [OF ex missing] by blast
  from glob_loop_aborts [OF mem this] obtain e where
    e: "glob_loop fs roles containers repos checks globbed (Map.empty, Map.empty) = Inl e"
    by blast
  from glob_loop_errors [OF e] e
  show "\<exists>k\<in>{''PR_REPO'', ''PR_BRANCH'', ''CHECK_NAME'', ''CI_NAME''}.
              get_all_checks fs globbed roles containers repos checks = Inl (KeyError k)"
    by (auto simp: get_all_checks_def)
next
  fix pre post cat
  assume h: "globbed = pre @ (role, docker, envf) # post \<and>
            glob_loop fs roles containers repos checks pre (Map.empty, Map.empty) = Inr cat"
  have "\<exists>k\<in>{''PR_REPO'', ''PR_BRANCH'', ''CHECK_NAME''}.
          merged_check fs role docker envf k = None \<and>
          process_env_path fs roles containers repos checks (role, docker, envf) cat
             = Inl (KeyError k)"
    using ex missing
    by (auto simp: process_env_path_def examined_def subscript_def Let_def
           split: option.splits)
  with h show "\<exists>k\<in>{''PR_REPO'', ''PR_BRANCH'', ''CHECK_NAME''}.
               merged_check fs role docker envf k = None \<and>
               get_all_checks fs globbed roles containers repos checks = Inl (KeyError k)"
    by (auto simp: get_all_checks_def glob_loop_append)
qed

text \<open>
  Claim C4, as stated, fails: with one complete check file and one without \<open>CHECK_NAME\<close>,
  the call raises and the complete check is not in any returned catalog.
\<close>

theorem one_bad_file_counterexample:
  "get_all_checks widgets_tree
     [(''build'', ''gcc'', ''unit.env''), (''build'', ''gcc'', ''lint.env'')] [] [] [] []
   = Inl (KeyError ''CHECK_NAME'')"
  by (simp add: get_all_checks_def process_env_path_def merged_check_def widgets_tree_def
      DEFAULTENV_def dict_update_def subscript_def dd_append_def)

theorem missing_key_aborts_resolution_witness:
  "get_all_checks widgets_tree
     [(''build'', ''gcc'', ''lint.env''), (''build'', ''gcc'', ''unit.env'')] [] [] [] []
   = Inl (KeyError ''CHECK_NAME'')"
proof -
  have ex: "examined [] [] (''build'', ''gcc'', ''lint.env'')"
    by (simp add: examined_def DEFAULTENV_def)
  have m: "merged_check widgets_tree ''build'' ''gcc'' ''lint.env'' ''CHECK_NAME'' = None"
    "merged_check widgets_tree ''build'' ''gcc'' ''lint.env'' ''PR_REPO'' \<noteq> None"
    "merged_check widgets_tree ''build'' ''gcc'' ''lint.env'' ''PR_BRANCH'' \<noteq> None"
    by (simp_all add: merged_check_def widgets_tree_def DEFAULTENV_def dict_update_def)
  then have missing: "merged_check widgets_tree ''build'' ''gcc'' ''lint.env'' ''PR_REPO'' = None \<or>
         merged_check widgets_tree ''build'' ''gcc'' ''lint.env'' ''PR_BRANCH'' = None \<or>
         merged_check widgets_tree ''build'' ''gcc'' ''lint.env'' ''CHECK_NAME'' = None"
    by simp
  have "\<exists>k\<in>{''PR_REPO'', ''PR_BRANCH'', ''CHECK_NAME''}.
      merged_check widgets_tree ''build'' ''gcc'' ''lint.env'' k = None \<and>
      get_all_checks widgets_tree
        [(''build'', ''gcc'', ''lint.env''), (''build'', ''gcc'', ''unit.env'')] [] [] [] []
      = Inl (KeyError k)"
    using missing_key_aborts_resolution [OF ex missing,
        of "[(''build'', ''gcc'', ''lint.env''), (''build'', ''gcc'', ''unit.env'')]" "[]" "[]"]
    by (elim conjE allE [of _ "[]"] allE [of _ "[(''build'', ''gcc'', ''unit.env'')]"]
        allE [of _ "(Map.empty, Map.empty)"]) simp
  with m show ?thesis by auto
qed

section \<open>Properties of \<open>format_status\<close>\<close>

text \<open>
  Claim C6, as stated, fails for \<open>format_status\<close> of \<open>overview.py\<close>: an \<open>ERROR\<close> status is
  rendered with the code \<open>31;1\<close> (bold red), not \<open>31\<close>.
\<close>

theorem overview_error_colour_counterexample:
  "overview_format_status error_status ''#7'' ''2024-01-02T00:00:00Z''
     = ESC # ''[31;1m#7'' @ ESC # ''[0m'' \<and>
   overview_format_status error_status ''#7'' ''2024-01-02T00:00:00Z''
     \<noteq> ESC # ''[31m#7'' @ ESC # ''[0m''"
  by (simp add: overview_format_status_def overview_url_def overview_colour_def error_status_def)

text \<open>
  Claim C6, amended: in \<open>format_status\<close> of \<open>overview.py\<close> the colour code is a fixed total
  function of the state: \<open>EXPECTED\<close> is 35 (magenta), \<open>PENDING\<close> 33 (yellow), \<open>SUCCESS\<close> 32
  (green), \<open>FAILURE\<close> 31 (red) and \<open>ERROR\<close> 31;1 (bold red).
\<close>

theorem overview_colour_table:
  "overview_format_status st text cutoff =
     (case overview_url st of Some u \<Rightarrow> ESC # '']8;;'' @ u @ ST | None \<Rightarrow> []) @
     ESC # ''['' @
     (case state st of
        EXPECTED \<Rightarrow> ''35'' | PENDING \<Rightarrow> ''33'' | SUCCESS \<Rightarrow> ''32''
      | FAILURE \<Rightarrow> ''31'' | ERROR \<Rightarrow> ''31;1'') @
     (if cutoff < createdAt st then '';7'' else []) @ ''m'' @ text @
     (case overview_url st of Some u \<Rightarrow> ESC # '']8;;'' @ ST | None \<Rightarrow> []) @
     ESC # ''[0m''"
  by (cases "state st")
     (simp_all add: overview_format_status_def overview_colour_def Let_def
        split: option.splits)

theorem overview_colour_table_witness:
  "overview_format_status (error_status\<lparr>state := EXPECTED\<rparr>) ''#7'' ''2024-01-02T00:00:00Z''
     = ESC # ''[35m#7'' @ ESC # ''[0m'' \<and>
   overview_format_status (error_status\<lparr>state := PENDING\<rparr>) ''#7'' ''2024-01-02T00:00:00Z''
     = ESC # ''[33m#7'' @ ESC # ''[0m'' \<and>
   overview_format_status (error_status\<lparr>state := SUCCESS\<rparr>) ''#7'' ''2024-01-02T00:00:00Z''
     = ESC # ''[32m#7'' @ ESC # ''[0m'' \<and>
   overview_format_status (error_status\<lparr>state := FAILURE\<rparr>) ''#7'' ''2024-01-02T00:00:00Z''
     = ESC # ''[31m#7'' @ ESC # ''[0m'' \<and>
   overview_format_status error_status ''#7'' ''2024-01-02T00:00:00Z''
     = ESC # ''[31;1m#7'' @ ESC # ''[0m''"
  using overview_colour_table [of "error_status\<lparr>state := EXPECTED\<rparr>" "''#7''" "''2024-01-02T00:00:00Z''"]
    overview_colour_table [of "error_status\<lparr>state := PENDING\<rparr>" "''#7''" "''2024-01-02T00:00:00Z''"]
    overview_colour_table [of "error_status\<lparr>state := SUCCESS\<rparr>" "''#7''" "''2024-01-02T00:00:00Z''"]
    overview_colour_table [of "error_status\<lparr>state := FAILURE\<rparr>" "''#7''" "''2024-01-02T00:00:00Z''"]
    overview_colour_table [of error_status "''#7''" "''2024-01-02T00:00:00Z''"]
  by (simp add: error_status_def overview_url_def)




section \<open>Properties of \<open>output_check_table\<close>\<close>

lemma mset_insort_reverse: "mset (insort_reverse key x xs) = add_mset x (mset xs)"
  by (induction xs) auto

lemma mset_sort_reverse: "mset (sort_reverse key xs) = mset xs"
  by (induction xs) (auto simp: sort_reverse_def mset_insort_reverse)

lemma set_insort_reverse: "set (insort_reverse key x xs) = insert x (set xs)"
  by (induction xs) auto

lemma sorted_insort_reverse:
  "sorted_wrt (\<lambda>a b. key b \<le> key a) xs \<Longrightarrow>
   sorted_wrt (\<lambda>a b. key b \<le> key a) (insort_reverse key x xs)"
  by (induction xs) (auto simp: set_insort_reverse)

lemma sorted_sort_reverse: "sorted_wrt (\<lambda>a b. key b \<le> key a) (sort_reverse key xs)"
  by (induction xs) (auto simp: sort_reverse_def sorted_insort_reverse)

lemma sort_reverse_Cons: "sort_reverse key (x # xs) = insort_reverse key x (sort_reverse key xs)"
  by (simp add: sort_reverse_def)

lemma sort_reverse_sorted:
  "sorted_wrt (\<lambda>a b. key b \<le> key a) xs \<Longrightarrow> sort_reverse key xs = xs"
proof (induction xs)
  case Nil
  then show ?case by (simp add: sort_reverse_def)
next
  case (Cons x xs)
  then have "sort_reverse key xs = xs" by simp
  with Cons.prems show ?case
    by (cases xs) (simp_all add: sort_reverse_Cons)
qed

lemma filter_insort_reverse:
  "filter (\<lambda>y. key y = k) (insort_reverse key x xs) =
     (if key x = k then x # filter (\<lambda>y. key y = k) xs else filter (\<lambda>y. key y = k) xs)"
  by (induction xs) auto

lemma filter_sort_reverse:
  "filter (\<lambda>y. key y = k) (sort_reverse key xs) = filter (\<lambda>y. key y = k) xs"
  by (induction xs) (auto simp: sort_reverse_Cons filter_insort_reverse sort_reverse_def)

text \<open>
  Claim C8, amended: \<open>output_check_table\<close> sorts the caller's list in place. After the
  call the list is the stable descending sort by \<open>createdAt\<close> of what was passed: the same
  elements, most recent first, equal timestamps in their original order; it is unchanged
  exactly when it was already in that order. The outcome is a function of the list, the
  terminal width and the recency cutoff, and a second call on the list left by the first
  gives the same outcome.
\<close>

theorem output_check_table_sorts_in_place:
  "fst (output_check_table fl xs w cutoff) = sort_reverse createdAt xs \<and>
   mset (fst (output_check_table fl xs w cutoff)) = mset xs \<and>
   sorted_wrt (\<lambda>a b. createdAt b \<le> createdAt a) (fst (output_check_table fl xs w cutoff)) \<and>
   (\<forall>k. filter (\<lambda>s. createdAt s = k) (fst (output_check_table fl xs w cutoff))
          = filter (\<lambda>s. createdAt s = k) xs) \<and>
   (fst (output_check_table fl xs w cutoff) = xs)
     = sorted_wrt (\<lambda>a b. createdAt b \<le> createdAt a) xs \<and>
   output_check_table fl (fst (output_check_table fl xs w cutoff)) w cutoff
     = output_check_table fl xs w cutoff"
proof -
  have f: "fst (output_check_table fl xs w cutoff) = sort_reverse createdAt xs"
    by (simp add: output_check_table_def Let_def)
  have idem: "sort_reverse createdAt (sort_reverse createdAt xs) = sort_reverse createdAt xs"
    by (rule sort_reverse_sorted) (rule sorted_sort_reverse)
  have same: "(sort_reverse createdAt xs = xs) = sorted_wrt (\<lambda>a b. createdAt b \<le> createdAt a) xs"
    using sort_reverse_sorted [of createdAt xs] sorted_sort_reverse [of createdAt xs]
    by auto
  have again: "output_check_table fl (sort_reverse createdAt xs) w cutoff = output_check_table fl xs w cutoff"
    by (simp add: output_check_table_def Let_def idem)
  show ?thesis
    unfolding f using same again
    by (simp add: mset_sort_reverse sorted_sort_reverse filter_sort_reverse)
qed

text \<open>
  Claim C8, as stated, fails: a list holding an older status before a newer one is not
  the same list after the call.
\<close>

theorem sort_in_place_counterexample:
  "fst (output_check_table example_floor_log10 [old_status, new_status] 80 ''2024-01-02T00:00:00Z'')
     \<noteq> [old_status, new_status]"
  by (simp add: output_check_table_def Let_def sort_reverse_def old_status_def new_status_def)

theorem output_check_table_sorts_in_place_witness:
  "fst (output_check_table example_floor_log10 [old_status, new_status] 80 ''2024-01-02T00:00:00Z'')
     = [new_status, old_status] \<and>
   fst (output_check_table example_floor_log10 [new_status, old_status] 80 ''2024-01-02T00:00:00Z'')
     = [new_status, old_status]"
  using output_check_table_sorts_in_place [of example_floor_log10 "[old_status, new_status]" 80
      "''2024-01-02T00:00:00Z''"]
    output_check_table_sorts_in_place [of example_floor_log10 "[new_status, old_status]" 80
      "''2024-01-02T00:00:00Z''"]
  by (simp add: sort_reverse_def old_status_def new_status_def)

end
